theory Spec2Isabelle
  imports Complex_Main "HOL-Library.AList" "HOL-Library.Sublist"
begin

section \<open>Admission control: \<open>lib/rate_limiting.py\<close>\<close>

text \<open>
  The clock \<open>time.time()\<close> is an input of every operation that reads it. Instants and
  load figures are Python floats; they are idealised as reals here, so the theorems below
  speak about the window logic and not about rounding. The log lines of this module are
  left out: no operation reads them back.
\<close>

definition py_int :: "real \<Rightarrow> int" where
  \<comment> \<open>Python's \<open>int(x)\<close> on a float: truncation toward zero.\<close>
  "py_int x = (if 0 \<le> x then \<lfloor>x\<rfloor> else \<lceil>x\<rceil>)"

record rate_info =
  limit :: int
  remaining :: int
  reset :: int

text \<open>
  The fourth entry of the source's \<open>rate_info\<close>, \<open>reset_time\<close>, is the ISO rendering of
  \<open>reset\<close> and carries no further information; it is left out.
\<close>

record RateLimiter =
  max_requests :: int
  window_seconds :: int
  requests :: "string \<rightharpoonup> real list"

definition RateLimiter_init :: "int \<Rightarrow> int \<Rightarrow> RateLimiter" where
  "RateLimiter_init m w = \<lparr>max_requests = m, window_seconds = w, requests = Map.empty\<rparr>"

definition request_times :: "RateLimiter \<Rightarrow> string \<Rightarrow> real list" where
  \<comment> \<open>\<open>self.requests[identifier]\<close> on a \<open>defaultdict(deque)\<close>: a missing key reads as the empty deque.\<close>
  "request_times L identifier = (case requests L identifier of None \<Rightarrow> [] | Some q \<Rightarrow> q)"

fun evict :: "real \<Rightarrow> real list \<Rightarrow> real list" where
  \<comment> \<open>\<open>while request_times and request_times[0] <= cutoff: request_times.popleft()\<close>\<close>
  "evict cutoff [] = []"
| "evict cutoff (t # ts) = (if t \<le> cutoff then evict cutoff ts else t # ts)"

definition is_allowed :: "RateLimiter \<Rightarrow> string \<Rightarrow> real \<Rightarrow> (bool \<times> rate_info) \<times> RateLimiter" where
  "is_allowed L identifier now =
    (let kept = evict (now - real_of_int (window_seconds L)) (request_times L identifier);
         current_requests = int (length kept);
         allowed = (current_requests < max_requests L);
         kept' = (if allowed then kept @ [now] else kept);
         reset_time = (if kept' \<noteq> [] then py_int (now + real_of_int (window_seconds L))
                       else py_int now);
         rem = max 0 (max_requests L - current_requests - (if allowed then 1 else 0))
     in ((allowed, \<lparr>limit = max_requests L, remaining = rem, reset = reset_time\<rparr>),
         L\<lparr>requests := (requests L)(identifier \<mapsto> kept')\<rparr>))"

fun admissions :: "RateLimiter \<Rightarrow> string \<Rightarrow> real list \<Rightarrow> bool list" where
  \<comment> \<open>The verdicts of successive \<open>is_allowed\<close> calls for one identifier, the clock reading the given instants.\<close>
  "admissions L identifier [] = []"
| "admissions L identifier (now # ts) =
     (case is_allowed L identifier now of
        ((ok, info), L') \<Rightarrow> ok # admissions L' identifier ts)"

text \<open>
  The admission rule as the specification words it, for comparison with \<open>is_allowed\<close>:
  entries older than \<open>now - window\<close> are evicted, and the reset instant is \<open>now + window\<close>.
  The result is (admitted, remaining, reset, window after the call).
\<close>

definition check_spec :: "int \<Rightarrow> int \<Rightarrow> real list \<Rightarrow> real \<Rightarrow> bool \<times> int \<times> real \<times> real list" where
  "check_spec cap w win now =
    (let kept = filter (\<lambda>t. \<not> t < now - real_of_int w) win;
         n = int (length kept);
         admitted = (n < cap)
     in (admitted, max 0 (cap - n - (if admitted then 1 else 0)), now + real_of_int w,
         if admitted then kept @ [now] else kept))"


subsection \<open>The adaptive limiter\<close>

record AdaptiveRateLimiter =
  base_limit :: int
  adaptive_window_seconds :: int
  current_multiplier :: real
  load_samples :: "real list"
  last_adjustment :: real
  rate_limiter :: RateLimiter

definition AdaptiveRateLimiter_init :: "int \<Rightarrow> int \<Rightarrow> real \<Rightarrow> AdaptiveRateLimiter" where
  \<comment> \<open>The third argument is the clock at construction: \<open>self.last_adjustment = time.time()\<close>.\<close>
  "AdaptiveRateLimiter_init b w now =
     \<lparr>base_limit = b, adaptive_window_seconds = w, current_multiplier = 1, load_samples = [],
      last_adjustment = now, rate_limiter = RateLimiter_init b w\<rparr>"

definition deque_append :: "nat \<Rightarrow> 'a list \<Rightarrow> 'a \<Rightarrow> 'a list" where
  \<comment> \<open>\<open>append\<close> on a \<open>deque(maxlen=n)\<close>: a full deque drops its oldest entry.\<close>
  "deque_append maxlen q x = (if length q < maxlen then q @ [x] else tl (q @ [x]))"

definition adjust_rate_limit :: "AdaptiveRateLimiter \<Rightarrow> AdaptiveRateLimiter" where
  "adjust_rate_limit A =
    (if load_samples A = [] then A
     else
       let avg_load = sum_list (load_samples A) / real (length (load_samples A));
           m = (if avg_load > 80 then max 0.5 (current_multiplier A * 0.8)
                else if avg_load < 40 then min 2.0 (current_multiplier A * 1.1)
                else current_multiplier A);
           new_limit = py_int (real_of_int (base_limit A) * m)
       in A\<lparr>current_multiplier := m,
            rate_limiter := (rate_limiter A)\<lparr>max_requests := new_limit\<rparr>\<rparr>)"

definition update_system_load :: "AdaptiveRateLimiter \<Rightarrow> real \<Rightarrow> real \<Rightarrow> real \<Rightarrow> AdaptiveRateLimiter" where
  \<comment> \<open>The last argument is the clock read by the call.\<close>
  "update_system_load A cpu_percent memory_percent now =
    (let load_score = (cpu_percent + memory_percent) / 2;
         A1 = A\<lparr>load_samples := deque_append 10 (load_samples A) load_score\<rparr>
     in if now - last_adjustment A1 > 30
        then (adjust_rate_limit A1)\<lparr>last_adjustment := now\<rparr>
        else A1)"

fun feed_loads :: "AdaptiveRateLimiter \<Rightarrow> (real \<times> real \<times> real) list \<Rightarrow> AdaptiveRateLimiter" where
  \<comment> \<open>Successive \<open>update_system_load\<close> calls; each triple is (cpu, memory, clock).\<close>
  "feed_loads A [] = A"
| "feed_loads A ((cpu, mem, now) # rest) = feed_loads (update_system_load A cpu mem now) rest"

definition mean :: "real list \<Rightarrow> real" where
  "mean xs = sum_list xs / real (length xs)"

subsection \<open>The middleware\<close>

function digits :: "nat \<Rightarrow> string" where
  "digits n = (if n < 10 then [''0123456789'' ! n]
               else digits (n div 10) @ [''0123456789'' ! (n mod 10)])"
  by pat_completeness auto
termination
  by (relation "measure id") auto

definition py_str :: "int \<Rightarrow> string" where
  \<comment> \<open>Python's \<open>str(n)\<close> on an int.\<close>
  "py_str n = (if n < 0 then CHR ''-'' # digits (nat (- n)) else digits (nat n))"

record Request =
  url_path :: string
  headers :: "string \<rightharpoonup> string"
  client_host :: "string option"

record Response =
  status_code :: int
  content :: string
  response_headers :: "string \<rightharpoonup> string"

definition is_space :: "char \<Rightarrow> bool" where
  \<comment> \<open>The characters \<open>str.strip()\<close> removes, among code points below 256.\<close>
  "is_space c = (of_char c \<in> {9, 10, 11, 12, 13, 28, 29, 30, 31, 32, 133, 160 :: nat})"

definition strip :: "string \<Rightarrow> string" where
  "strip s = rev (dropWhile is_space (rev (dropWhile is_space s)))"

definition get_identifier :: "Request \<Rightarrow> string" where
  \<comment> \<open>\<open>IPRateLimiter.get_identifier\<close>; \<open>split(",")[0]\<close> is the text before the first comma.\<close>
  "get_identifier request =
    (case headers request ''X-Forwarded-For'' of
       Some forwarded_for \<Rightarrow>
         if forwarded_for \<noteq> [] then strip (takeWhile (\<lambda>c. c \<noteq> CHR '','') forwarded_for)
         else (case client_host request of Some h \<Rightarrow> h | None \<Rightarrow> ''unknown'')
     | None \<Rightarrow> (case client_host request of Some h \<Rightarrow> h | None \<Rightarrow> ''unknown''))"

record limiters =
  ip_rate_limiter :: RateLimiter
  twilio_rate_limiter :: RateLimiter

definition limiters_init :: limiters where
  "limiters_init = \<lparr>ip_rate_limiter = RateLimiter_init 100 60,
                    twilio_rate_limiter = RateLimiter_init 30 60\<rparr>"

text \<open>
  The downstream handler \<open>call_next\<close> acts on a state of its own, \<open>'w\<close>, and either returns
  a response or raises an exception, the left injection carrying its message.
\<close>

type_synonym 'w call_next = "Request \<Rightarrow> 'w \<Rightarrow> (string + Response) \<times> 'w"

definition rate_limit_middleware ::
  "limiters \<Rightarrow> real \<Rightarrow> Request \<Rightarrow> 'w call_next \<Rightarrow> 'w \<Rightarrow> (string + Response) \<times> limiters \<times> 'w" where
  "rate_limit_middleware G now request call_next world =
    (let twilio = (url_path request = ''/receive-message'');
         limiter = (if twilio then twilio_rate_limiter G else ip_rate_limiter G);
         identifier = (if twilio then ''twilio_webhook'' else get_identifier request)
     in case is_allowed limiter identifier now of
          ((allowed, info), limiter') \<Rightarrow>
            let G' = (if twilio then G\<lparr>twilio_rate_limiter := limiter'\<rparr>
                      else G\<lparr>ip_rate_limiter := limiter'\<rparr>)
            in if \<not> allowed then
                 (Inr \<lparr>status_code = 429, content = ''Rate limit exceeded'',
                       response_headers =
                         [''X-RateLimit-Limit'' \<mapsto> py_str (limit info),
                          ''X-RateLimit-Remaining'' \<mapsto> py_str (remaining info),
                          ''X-RateLimit-Reset'' \<mapsto> py_str (reset info),
                          ''Retry-After'' \<mapsto> py_str (window_seconds limiter)]\<rparr>,
                  G', world)
               else
                 (case call_next request world of
                    (Inr response, world') \<Rightarrow>
                      (Inr (response\<lparr>response_headers := (response_headers response)
                              (''X-RateLimit-Limit'' \<mapsto> py_str (limit info),
                               ''X-RateLimit-Remaining'' \<mapsto> py_str (remaining info),
                               ''X-RateLimit-Reset'' \<mapsto> py_str (reset info))\<rparr>),
                       G', world')
                  | (Inl e, world') \<Rightarrow>
                      \<comment> \<open>\<open>except Exception\<close>: the handler is called again, its outcome returned as it is\<close>
                      (case call_next request world' of
                         (r, world'') \<Rightarrow> (r, G', world''))))"

definition selected_limiter :: "limiters \<Rightarrow> Request \<Rightarrow> RateLimiter" where
  \<comment> \<open>The limiter the middleware consults for a request.\<close>
  "selected_limiter G request =
     (if url_path request = ''/receive-message'' then twilio_rate_limiter G else ip_rate_limiter G)"

definition selected_identifier :: "Request \<Rightarrow> string" where
  "selected_identifier request =
     (if url_path request = ''/receive-message'' then ''twilio_webhook'' else get_identifier request)"

section \<open>Lifecycle, persistence and health: \<open>lib/service_manager.py\<close>\<close>

datatype level = DEBUG | INFO | WARNING | ERROR

type_synonym log_line = "level \<times> string"

subsection \<open>ServiceManager\<close>

text \<open>
  Besides its fields the manager keeps a list of effects, in the order in which they happen:
  a state written to the state file, the shutdown event being set, the cancellation of a
  background task being requested, a cleanup handler being called. The list only records
  the order; what the actions do is in the fields.
\<close>

datatype effect = Persist string | EventSet | Cancel string | Invoke "string option"

text \<open>
  A background task is known by how it answers \<open>cancel()\<close> followed by
  \<open>wait_for(task, timeout=5.0)\<close>: the wait ends with \<open>CancelledError\<close>, with
  \<open>TimeoutError\<close>, with another exception, or with the task's result; or the task never
  ends, and the wait with it. Whenever the wait ends, the task has ended.
\<close>

datatype cancel_outcome = Acknowledged | TimedOut | Crashed string | Finished | Hangs

record task =
  task_name :: string
  task_done :: bool
  on_cancel :: cancel_outcome

text \<open>
  A cleanup handler is a callable: it may have a name (\<open>handler.__name__\<close>; a function
  has one, a \<open>functools.partial\<close> has none), and it acts on the state \<open>'w\<close> of the rest of
  the process, where it returns, or raises an exception whose message is given.
\<close>

type_synonym 'w handler = "string option \<times> ('w \<Rightarrow> string option \<times> 'w)"

text \<open>
  How a call ends: it returns, it raises (the exception is named), or it waits forever.
\<close>

datatype call_end = Returned | Raised string | Blocked

record 'w ServiceManager =
  shutdown_event :: bool
  cleanup_handlers :: "'w handler list"
  background_tasks :: "task list"
  is_shutting_down :: bool
  state_file_error :: "string option"
  service_state :: "string option"
  world :: 'w
  effects :: "effect list"
  logged :: "log_line list"

text \<open>
  \<open>state_file_error\<close> belongs to the environment: \<open>Some e\<close> when writing
  \<open>service_state.json\<close> raises \<open>e\<close>. \<open>service_state\<close> is the \<open>state\<close> entry of that file as
  last written; its other entries (timestamps, process id) are left out.
\<close>

definition ServiceManager_init :: "'w \<Rightarrow> 'w ServiceManager" where
  "ServiceManager_init w =
     \<lparr>shutdown_event = False, cleanup_handlers = [], background_tasks = [],
      is_shutting_down = False, state_file_error = None, service_state = None,
      world = w, effects = [], logged = []\<rparr>"

definition add_cleanup_handler :: "'w handler \<Rightarrow> 'w ServiceManager \<Rightarrow> call_end \<times> 'w ServiceManager" where
  \<comment> \<open>the handler is appended before the log line reads its name\<close>
  "add_cleanup_handler h S =
     (case fst h of
        Some name \<Rightarrow>
          (Returned,
           S\<lparr>cleanup_handlers := cleanup_handlers S @ [h],
             logged := logged S @ [(DEBUG, ''Added cleanup handler: '' @ name)]\<rparr>)
      | None \<Rightarrow>
          (Raised ''AttributeError'', S\<lparr>cleanup_handlers := cleanup_handlers S @ [h]\<rparr>))"








definition handler_line :: "string \<Rightarrow> string option \<Rightarrow> log_line" where
  \<comment> \<open>the log line for a handler of the given name: it returned, or raised \<open>e\<close>\<close>
  "handler_line name outcome =
     (case outcome of
        None \<Rightarrow> (DEBUG, ''Cleanup handler '' @ name @ '' completed'')
      | Some e \<Rightarrow> (ERROR, ''Error in cleanup handler '' @ name @ '': '' @ e))"

definition invoke_handler :: "nat \<Rightarrow> 'w ServiceManager \<Rightarrow> call_end \<times> 'w ServiceManager" where
  \<comment> \<open>one turn of the loop of \<open>_run_cleanup_handlers\<close>. Both log lines read
      \<open>handler.__name__\<close>: without a name the line in the \<open>try\<close> raises \<open>AttributeError\<close>,
      which the \<open>except\<close> catches, and the line in the \<open>except\<close> raises it again, out of
      the loop.\<close>
  "invoke_handler k S =
     (case cleanup_handlers S ! k of
        (nm, h) \<Rightarrow>
          (case h (world S) of
             (outcome, w') \<Rightarrow>
               (case nm of
                  Some name \<Rightarrow>
                    (Returned,
                     S\<lparr>world := w', effects := effects S @ [Invoke (Some name)],
                       logged := logged S @ [handler_line name outcome]\<rparr>)
                | None \<Rightarrow>
                    (Raised ''AttributeError'',
                     S\<lparr>world := w', effects := effects S @ [Invoke None]\<rparr>))))"

function clean_from :: "nat \<Rightarrow> 'w ServiceManager \<Rightarrow> call_end \<times> 'w ServiceManager" where
  \<comment> \<open>the loop \<open>for handler in self.cleanup_handlers\<close>, from the \<open>k\<close>-th handler on\<close>
  "clean_from k S =
     (if k < length (cleanup_handlers S)
      then (case invoke_handler k S of
              (ce, S') \<Rightarrow> if ce = Returned then clean_from (Suc k) S' else (ce, S'))
      else (Returned, S))"
  by pat_completeness auto
termination
  by (relation "measure (\<lambda>(k, S). length (cleanup_handlers S) - k)")
     (auto simp: invoke_handler_def split: prod.splits option.splits)

declare clean_from.simps [simp del]

definition run_cleanup_handlers :: "'w ServiceManager \<Rightarrow> call_end \<times> 'w ServiceManager" where
  "run_cleanup_handlers S =
     clean_from 0
       (S\<lparr>logged := logged S @
            [(INFO, ''Running '' @ py_str (int (length (cleanup_handlers S)))
                      @ '' cleanup handlers...'')]\<rparr>)"


definition is_running :: "'w ServiceManager \<Rightarrow> bool" where
  "is_running S = (\<not> is_shutting_down S \<and> \<not> shutdown_event S)"


text \<open>
  Concurrent calls. The event loop runs one coroutine at a time and leaves it only at an
  \<open>await\<close>. No \<open>await\<close> stands between the test of \<open>is_shutting_down\<close> and its
  assignment, so the two are one step. Every point at which the body can be left is a point
  of the model: each \<open>wait_for\<close> on a task (between the request to cancel and the handling
  of its answer), and each call of a handler, which runs as one step on \<open>'w\<close> (a handler
  that suspends inside is left and re-entered there, where the other calls of \<open>shutdown\<close>
  touch nothing it acts on). The model also lets a call be left at the two awaits of
  \<open>_save_service_state\<close>, which the event loop never does; what holds for every schedule of
  the model holds for the schedules that can happen. A coroutine inside \<open>shutdown\<close> is at
  one of the following points; \<open>Cancelling k\<close>, \<open>Awaiting k\<close> and \<open>Cleaning k\<close> carry the
  position of the loop.
\<close>

datatype pc = Entry | Flagged | Announced | Cancelling nat | Awaiting nat | Cleaning nat
  | Completed | EarlyReturn | Failed












fun handler_outcomes :: "'w handler list \<Rightarrow> 'w \<Rightarrow> string option list" where
  \<comment> \<open>what each handler does when the handlers are called one after the other\<close>
  "handler_outcomes [] w = []"
| "handler_outcomes ((nm, h) # hs) w = (case h w of (outcome, w') \<Rightarrow> outcome # handler_outcomes hs w')"

definition named :: "'w handler \<Rightarrow> bool" where
  "named h = (fst h \<noteq> None)"

subsection \<open>PersistentState\<close>

text \<open>
  A file is known up to the JSON codec: \<open>Doc d\<close> is the text \<open>json.dump\<close> writes for the
  dictionary \<open>d\<close>, which \<open>json.load\<close> reads back as \<open>d\<close>; \<open>Corrupt e\<close> is a text that
  \<open>json.load\<close> rejects with the error \<open>e\<close>. A dictionary is an association list in
  insertion order. The file system maps a path to the file there; \<open>os.rename\<close> is the POSIX
  one, which replaces its target, and is taken to succeed on an existing source.
\<close>

datatype 'v contents = Doc "(string \<times> 'v) list" | Corrupt string

type_synonym 'v filesystem = "string \<rightharpoonup> 'v contents"

text \<open>
  How the write \<open>open(state_file, 'w')\<close>, \<open>json.dump\<close> of one \<open>save_state\<close> ends: it
  succeeds; \<open>open\<close> raises \<open>e\<close> and no file is made; or \<open>json.dump\<close> raises \<open>e\<close> having
  written a part, which \<open>json.load\<close> would reject with \<open>e'\<close>.
\<close>

datatype write_outcome = Written | OpenFails string | DumpFails string string

record 'v PersistentState =
  state_file :: string
  state :: "(string \<times> 'v) list"
  ps_logged :: "log_line list"

definition os_rename :: "string \<Rightarrow> string \<Rightarrow> 'v filesystem \<Rightarrow> 'v filesystem" where
  "os_rename src dst fs = (fs(dst := fs src))(src := None)"

definition load_state :: "'v filesystem \<Rightarrow> 'v PersistentState \<Rightarrow> 'v PersistentState" where
  "load_state fs P =
     (case fs (state_file P) of
        Some (Doc d) \<Rightarrow>
          P\<lparr>state := d,
            ps_logged := ps_logged P @
              [(INFO, ''Loaded persistent state: '' @ py_str (int (length d)) @ '' entries'')]\<rparr>
      | None \<Rightarrow>
          P\<lparr>state := [],
            ps_logged := ps_logged P @
              [(INFO, ''No persistent state file found, starting fresh'')]\<rparr>
      | Some (Corrupt e) \<Rightarrow>
          P\<lparr>state := [],
            ps_logged := ps_logged P @ [(ERROR, ''Failed to load persistent state: '' @ e)]\<rparr>)"

definition PersistentState_init :: "string \<Rightarrow> 'v filesystem \<Rightarrow> 'v PersistentState" where
  "PersistentState_init path fs = load_state fs \<lparr>state_file = path, state = [], ps_logged = []\<rparr>"

definition save_state ::
  "write_outcome \<Rightarrow> 'v PersistentState \<times> 'v filesystem \<Rightarrow> 'v PersistentState \<times> 'v filesystem" where
  "save_state wr c =
     (case c of
        (P, fs) \<Rightarrow>
          (let primary = state_file P;
               backup_file = state_file P @ ''.backup'';
               fs1 = (if fs primary \<noteq> None then os_rename primary backup_file fs else fs)
           in (case wr of
                 Written \<Rightarrow>
                   (P\<lparr>ps_logged := ps_logged P @ [(DEBUG, ''Persistent state saved'')]\<rparr>,
                    fs1(primary \<mapsto> Doc (state P)))
               | OpenFails e \<Rightarrow>
                   (P\<lparr>ps_logged := ps_logged P
                                      @ [(ERROR, ''Failed to save persistent state: '' @ e)]\<rparr>,
                    (if fs1 backup_file \<noteq> None then os_rename backup_file primary fs1 else fs1))
               | DumpFails e e' \<Rightarrow>
                   (P\<lparr>ps_logged := ps_logged P
                                      @ [(ERROR, ''Failed to save persistent state: '' @ e)]\<rparr>,
                    (if (fs1(primary \<mapsto> Corrupt e')) backup_file \<noteq> None
                     then os_rename backup_file primary (fs1(primary \<mapsto> Corrupt e'))
                     else fs1(primary \<mapsto> Corrupt e'))))))"

definition PersistentState_set ::
  "string \<Rightarrow> 'v \<Rightarrow> write_outcome \<Rightarrow> 'v PersistentState \<times> 'v filesystem
     \<Rightarrow> 'v PersistentState \<times> 'v filesystem" where
  "PersistentState_set key v wr c =
     (case c of (P, fs) \<Rightarrow> save_state wr (P\<lparr>state := AList.update key v (state P)\<rparr>, fs))"

definition PersistentState_get :: "string \<Rightarrow> 'v \<Rightarrow> 'v PersistentState \<Rightarrow> 'v" where
  \<comment> \<open>\<open>self.state.get(key, default)\<close>\<close>
  "PersistentState_get key dflt P = (case map_of (state P) key of Some v \<Rightarrow> v | None \<Rightarrow> dflt)"

definition PersistentState_delete ::
  "string \<Rightarrow> write_outcome \<Rightarrow> 'v PersistentState \<times> 'v filesystem
     \<Rightarrow> 'v PersistentState \<times> 'v filesystem" where
  "PersistentState_delete key wr c =
     (case c of
        (P, fs) \<Rightarrow>
          if key \<in> fst ` set (state P)
          then save_state wr (P\<lparr>state := AList.delete key (state P)\<rparr>, fs)
          else (P, fs))"

definition PersistentState_clear ::
  "write_outcome \<Rightarrow> 'v PersistentState \<times> 'v filesystem \<Rightarrow> 'v PersistentState \<times> 'v filesystem" where
  "PersistentState_clear wr c = (case c of (P, fs) \<Rightarrow> save_state wr (P\<lparr>state := []\<rparr>, fs))"

subsection \<open>HealthChecker\<close>

text \<open>
  A health check acts on the state \<open>'w\<close> of the rest of the process; it returns a value,
  of which only the truth value is read, or raises an exception with the given message.
  The timestamps of the report are left out.
\<close>

datatype check_outcome = Returns bool | Raises string

type_synonym 'w check = "'w \<Rightarrow> check_outcome \<times> 'w"

record check_result =
  status :: string
  error :: "string option"

record 'w HealthChecker =
  health_checks :: "(string \<times> 'w check) list"
  health_status :: string
  hc_logged :: "log_line list"

record health_report =
  overall_status :: string
  checks :: "(string \<times> check_result) list"

definition HealthChecker_init :: "'w HealthChecker" where
  "HealthChecker_init = \<lparr>health_checks = [], health_status = ''unknown'', hc_logged = []\<rparr>"

definition register_health_check :: "string \<Rightarrow> 'w check \<Rightarrow> 'w HealthChecker \<Rightarrow> 'w HealthChecker" where
  "register_health_check name check_func H =
     H\<lparr>health_checks := AList.update name check_func (health_checks H),
       hc_logged := hc_logged H @ [(DEBUG, ''Registered health check: '' @ name)]\<rparr>"

fun run_checks ::
  "(string \<times> 'w check) list \<Rightarrow> (string \<times> check_result) list \<Rightarrow> bool \<Rightarrow> 'w \<Rightarrow> log_line list
     \<Rightarrow> (string \<times> check_result) list \<times> bool \<times> 'w \<times> log_line list" where
  \<comment> \<open>the loop of \<open>run_health_checks\<close> over \<open>results\<close>, \<open>overall_healthy\<close>, the process state and the log\<close>
  "run_checks [] results overall_healthy w lg = (results, overall_healthy, w, lg)"
| "run_checks ((name, check_func) # rest) results overall_healthy w lg =
     (case check_func w of
        (Returns result, w') \<Rightarrow>
          run_checks rest
            (AList.update name
               \<lparr>status = (if result then ''healthy'' else ''unhealthy''), error = None\<rparr> results)
            (if \<not> result then False else overall_healthy) w' lg
      | (Raises e, w') \<Rightarrow>
          run_checks rest
            (AList.update name \<lparr>status = ''error'', error = Some e\<rparr> results)
            False w'
            (lg @ [(ERROR, ''Health check '' @ name @ '' failed: '' @ e)]))"

definition run_health_checks ::
  "'w HealthChecker \<Rightarrow> 'w \<Rightarrow> health_report \<times> 'w HealthChecker \<times> 'w" where
  "run_health_checks H w =
     (case run_checks (health_checks H) [] True w (hc_logged H) of
        (results, overall_healthy, w', lg) \<Rightarrow>
          let st = (if overall_healthy then ''healthy'' else ''unhealthy'')
          in (\<lparr>overall_status = st, checks = results\<rparr>,
              H\<lparr>health_status := st, hc_logged := lg\<rparr>, w'))"

fun outcomes :: "(string \<times> 'w check) list \<Rightarrow> 'w \<Rightarrow> check_outcome list" where
  \<comment> \<open>what each check does when the checks are called one after the other from state \<open>w\<close>\<close>
  "outcomes [] w = []"
| "outcomes ((name, check_func) # rest) w =
     (case check_func w of (oc, w') \<Rightarrow> oc # outcomes rest w')"

definition result_of :: "check_outcome \<Rightarrow> check_result" where
  "result_of oc =
     (case oc of
        Returns b \<Rightarrow> \<lparr>status = (if b then ''healthy'' else ''unhealthy''), error = None\<rparr>
      | Raises e \<Rightarrow> \<lparr>status = ''error'', error = Some e\<rparr>)"

section \<open>Properties of the admission controller\<close>

subsection \<open>The sliding window\<close>

lemma evict_sorted_filter:
  "sorted ts \<Longrightarrow> evict c ts = filter (\<lambda>t. c < t) ts"
proof (induction ts)
  case Nil
  then show ?case by simp
next
  case (Cons t ts)
  show ?case
  proof (cases "t \<le> c")
    case True
    with Cons show ?thesis by simp
  next
    case False
    with Cons.prems have "\<forall>u\<in>set ts. c < u" by auto
    then have "filter (\<lambda>t. c < t) ts = ts" by (simp add: filter_id_conv)
    with False show ?thesis by simp
  qed
qed

lemma evict_all_fresh: "\<forall>t\<in>set ts. c < t \<Longrightarrow> evict c ts = ts"
  by (cases ts) auto

lemma request_times_update [simp]:
  "request_times (L\<lparr>requests := (requests L)(i \<mapsto> q)\<rparr>) j = (if j = i then q else request_times L j)"
  by (simp add: request_times_def)

lemma admissions_within_window:
  assumes "\<forall>t\<in>set ts. \<forall>u\<in>set (request_times L i) \<union> set ts. t - real_of_int (window_seconds L) < u"
  shows "length (admissions L i ts) = length ts \<and>
         (\<forall>k < length ts. admissions L i ts ! k
             = (int (length (request_times L i)) + int k < max_requests L))"
  using assms
proof (induction ts arbitrary: L)
  case Nil
  then show ?case by simp
next
  case (Cons now ts)
  let ?w = "real_of_int (window_seconds L)"
  let ?xs = "request_times L i"
  have fresh: "\<forall>u\<in>set ?xs. now - ?w < u" using Cons.prems by simp
  then have ev: "evict (now - ?w) ?xs = ?xs" by (rule evict_all_fresh)
  obtain ok info L' where r: "is_allowed L i now = ((ok, info), L')"
    by (metis prod.exhaust)
  from r ev have ok: "ok = (int (length ?xs) < max_requests L)"
    by (auto simp: is_allowed_def Let_def)
  from r ev have L': "L' = L\<lparr>requests := (requests L)(i \<mapsto> (if ok then ?xs @ [now] else ?xs))\<rparr>"
    by (auto simp: is_allowed_def Let_def)
  have win': "request_times L' i = (if ok then ?xs @ [now] else ?xs)"
    by (simp add: L')
  have pars: "window_seconds L' = window_seconds L" "max_requests L' = max_requests L"
    by (simp_all add: L')
  have "\<forall>t\<in>set ts. \<forall>u\<in>set (request_times L' i) \<union> set ts. t - real_of_int (window_seconds L') < u"
    using Cons.prems by (auto simp: win' pars)
  from Cons.IH[OF this]
  have len: "length (admissions L' i ts) = length ts"
    and nth: "\<And>k. k < length ts \<Longrightarrow> admissions L' i ts ! k
                = (int (length (request_times L' i)) + int k < max_requests L)"
    by (simp_all add: pars)
  have adm: "admissions L i (now # ts) = ok # admissions L' i ts"
    by (simp add: r)
  show ?case
  proof (intro conjI allI impI)
    show "length (admissions L i (now # ts)) = length (now # ts)"
      unfolding adm by (simp add: len)
  next
    fix k assume k: "k < length (now # ts)"
    show "admissions L i (now # ts) ! k = (int (length ?xs) + int k < max_requests L)"
    proof (cases k)
      case 0
      then show ?thesis unfolding adm by (simp add: ok)
    next
      case (Suc j)
      with k have j: "j < length ts" by simp
      show ?thesis
        using nth[OF j] unfolding adm by (auto simp: Suc win' ok)
    qed
  qed
qed

lemma is_allowed_step:
  assumes "sorted (request_times L i)"
  shows "is_allowed L i now =
     (let kept = filter (\<lambda>t. now - real_of_int (window_seconds L) < t) (request_times L i);
          ok = (int (length kept) < max_requests L);
          win = (if ok then kept @ [now] else kept)
      in ((ok, \<lparr>limit = max_requests L,
                remaining = max 0 (max_requests L - int (length kept) - (if ok then 1 else 0)),
                reset = (if win = [] then py_int now
                         else py_int (now + real_of_int (window_seconds L)))\<rparr>),
          L\<lparr>requests := (requests L)(i \<mapsto> win)\<rparr>))"
  using evict_sorted_filter[OF assms]
  by (simp add: is_allowed_def Let_def)

lemma is_allowed_keeps_sorted:
  assumes "sorted (request_times L i)" "\<forall>t\<in>set (request_times L i). t \<le> now"
  shows "sorted (request_times (snd (is_allowed L i now)) i)"
  using assms
  by (auto simp: is_allowed_step Let_def sorted_append sorted_wrt_filter)

text \<open>
  Claim C1, as the code has it. On a deque in time order \<open>is_allowed\<close> keeps exactly the
  instants \<open>t\<close> with \<open>now - window_seconds < t\<close>, so an instant exactly \<open>window_seconds\<close>
  old is evicted already; it admits iff the number of kept instants is below
  \<open>max_requests\<close>, appends \<open>now\<close> exactly when it admits, and returns
  \<open>remaining = max(0, limit - count - (1 if admitted))\<close>; \<open>reset\<close> is
  \<open>int(now + window_seconds)\<close> when the deque is not empty after the call and \<open>int(now)\<close>
  when it is empty. Other identifiers and the limiter's parameters are untouched, and the
  deque stays in time order when the clock is not behind its entries. Consequently, for
  calls at instants all less than \<open>window_seconds\<close> apart from each other and from the
  retained entries, the \<open>k\<close>-th call (from 0) is admitted iff \<open>count + k < max_requests\<close>:
  from an empty window the \<open>max_requests\<close>-th call is admitted and the next is rejected.
\<close>

theorem is_allowed_sliding_window:
  assumes "sorted (request_times L i)"
  shows "(case is_allowed L i now of
            ((ok, info), L') \<Rightarrow>
              (ok \<longleftrightarrow> int (length (filter (\<lambda>t. now - real_of_int (window_seconds L) < t)
                                       (request_times L i))) < max_requests L)
            \<and> request_times L' i
                = filter (\<lambda>t. now - real_of_int (window_seconds L) < t) (request_times L i)
                  @ (if ok then [now] else [])
            \<and> limit info = max_requests L
            \<and> remaining info
                = max 0 (max_requests L
                         - int (length (filter (\<lambda>t. now - real_of_int (window_seconds L) < t)
                                          (request_times L i)))
                         - (if ok then 1 else 0))
            \<and> reset info
                = (if request_times L' i = [] then py_int now
                   else py_int (now + real_of_int (window_seconds L)))
            \<and> max_requests L' = max_requests L \<and> window_seconds L' = window_seconds L
            \<and> (\<forall>j. j \<noteq> i \<longrightarrow> requests L' j = requests L j)
            \<and> ((\<forall>t\<in>set (request_times L i). t \<le> now) \<longrightarrow> sorted (request_times L' i)))
       \<and> (\<forall>ts. (\<forall>t\<in>set ts. \<forall>u\<in>set (request_times L i) \<union> set ts.
                    t - real_of_int (window_seconds L) < u)
               \<longrightarrow> admissions L i ts
                   = map (\<lambda>k. int (length (request_times L i)) + int k < max_requests L)
                       [0..<length ts])"
proof (intro conjI allI impI)
  show "case is_allowed L i now of
            ((ok, info), L') \<Rightarrow>
              (ok \<longleftrightarrow> int (length (filter (\<lambda>t. now - real_of_int (window_seconds L) < t)
                                       (request_times L i))) < max_requests L)
            \<and> request_times L' i
                = filter (\<lambda>t. now - real_of_int (window_seconds L) < t) (request_times L i)
                  @ (if ok then [now] else [])
            \<and> limit info = max_requests L
            \<and> remaining info
                = max 0 (max_requests L
                         - int (length (filter (\<lambda>t. now - real_of_int (window_seconds L) < t)
                                          (request_times L i)))
                         - (if ok then 1 else 0))
            \<and> reset info
                = (if request_times L' i = [] then py_int now
                   else py_int (now + real_of_int (window_seconds L)))
            \<and> max_requests L' = max_requests L \<and> window_seconds L' = window_seconds L
            \<and> (\<forall>j. j \<noteq> i \<longrightarrow> requests L' j = requests L j)
            \<and> ((\<forall>t\<in>set (request_times L i). t \<le> now) \<longrightarrow> sorted (request_times L' i))"
    using assms by (auto simp: is_allowed_step[OF assms] Let_def sorted_append sorted_wrt_filter)
next
  fix ts
  assume h: "\<forall>t\<in>set ts. \<forall>u\<in>set (request_times L i) \<union> set ts.
                t - real_of_int (window_seconds L) < u"
  from admissions_within_window[OF h]
  show "admissions L i ts
          = map (\<lambda>k. int (length (request_times L i)) + int k < max_requests L) [0..<length ts]"
    by (intro nth_equalityI) simp_all
qed


text \<open>
  The theorem at work: limit 5, window 60 s. Five calls at seconds 0 to 4 are admitted and a
  sixth at second 5 is rejected; with those five in the deque, a call at second 61 finds 0
  and 1 expired, is admitted, and leaves one more admission.
\<close>

theorem is_allowed_sliding_window_witness:
  "sorted (request_times \<lparr>max_requests = 5, window_seconds = 60,
                           requests = [''A'' \<mapsto> [0, 1, 2, 3, 4]]\<rparr> ''A'')
   \<and> fst (is_allowed \<lparr>max_requests = 5, window_seconds = 60,
                       requests = [''A'' \<mapsto> [0, 1, 2, 3, 4]]\<rparr> ''A'' 61)
       = (True, \<lparr>limit = 5, remaining = 1, reset = 121\<rparr>)
   \<and> request_times (snd (is_allowed \<lparr>max_requests = 5, window_seconds = 60,
                       requests = [''A'' \<mapsto> [0, 1, 2, 3, 4]]\<rparr> ''A'' 61)) ''A''
       = [2, 3, 4, 61]
   \<and> admissions (RateLimiter_init 5 60) ''A'' [0, 1, 2, 3, 4, 5]
       = [True, True, True, True, True, False]"
proof -
  let ?L = "\<lparr>max_requests = 5, window_seconds = 60, requests = [''A'' \<mapsto> [0, 1, 2, 3, 4]]\<rparr>"
  have s: "sorted (request_times ?L ''A'')"
    by (simp add: request_times_def)
  have s0: "sorted (request_times (RateLimiter_init 5 60) ''A'')"
    by (simp add: request_times_def RateLimiter_init_def)
  have w: "\<forall>t\<in>set [0, 1, 2, 3, 4, 5::real].
             \<forall>u\<in>set (request_times (RateLimiter_init 5 60) ''A'') \<union> set [0, 1, 2, 3, 4, 5].
               t - real_of_int (window_seconds (RateLimiter_init 5 60)) < u"
    by (simp add: request_times_def RateLimiter_init_def)
  have u: "[0..<6] = [0, 1, 2, 3, 4, 5]"
    by (simp add: upt_rec)
  obtain ok info L' where r: "is_allowed ?L ''A'' 61 = ((ok, info), L')"
    by (metis prod.exhaust)
  from is_allowed_sliding_window[OF s, of 61] r
  have a: "ok" "request_times L' ''A'' = [2, 3, 4, 61]" "limit info = 5" "remaining info = 1"
    "reset info = 121"
    by (simp_all add: request_times_def py_int_def)
  have b0: "admissions (RateLimiter_init 5 60) ''A'' [0, 1, 2, 3, 4, 5]
             = map (\<lambda>k. int (length (request_times (RateLimiter_init 5 60) ''A'')) + int k
                          < max_requests (RateLimiter_init 5 60))
                 [0..<length [0, 1, 2, 3, 4, 5::real]]"
    using is_allowed_sliding_window[OF s0, of 0] w by blast
  have b1: "map (\<lambda>k. int (length (request_times (RateLimiter_init 5 60) ''A'')) + int k
                          < max_requests (RateLimiter_init 5 60))
                 [0..<length [0, 1, 2, 3, 4, 5::real]]
             = [True, True, True, True, True, False]"
    by (simp add: request_times_def RateLimiter_init_def u)
  have b: "admissions (RateLimiter_init 5 60) ''A'' [0, 1, 2, 3, 4, 5]
             = [True, True, True, True, True, False]"
    using b0 b1 by (rule trans)
  from a have "info = \<lparr>limit = 5, remaining = 1, reset = 121\<rparr>" by simp
  with s a b r show ?thesis by (simp only: fst_conv snd_conv simp_thms)
qed

text \<open>
  Claim C1 as stated fails. With limit 1 and window 60, an instant admitted at 0.5 is evicted
  by the call at 60.5, which is admitted, where the stated rule (evict what is older than
  \<open>now - window_seconds\<close>) keeps it and rejects; the same call returns reset 120, not
  \<open>now + window_seconds = 120.5\<close>. With limit 0 the first call at 1000 leaves the deque
  empty and returns reset 1000, not 1060.
\<close>

theorem is_allowed_spec_counterexample:
  "fst (fst (is_allowed \<lparr>max_requests = 1, window_seconds = 60, requests = [''A'' \<mapsto> [1/2]]\<rparr>
               ''A'' (121/2)))
     \<noteq> fst (check_spec 1 60 [1/2] (121/2))
   \<and> real_of_int (reset (snd (fst (is_allowed
         \<lparr>max_requests = 1, window_seconds = 60, requests = [''A'' \<mapsto> [1/2]]\<rparr> ''A'' (121/2)))))
     \<noteq> 121/2 + real_of_int 60
   \<and> real_of_int (reset (snd (fst (is_allowed (RateLimiter_init 0 60) ''A'' 1000))))
     \<noteq> 1000 + real_of_int 60"
  by (simp add: is_allowed_def check_spec_def request_times_def RateLimiter_init_def
      py_int_def Let_def)

subsection \<open>The adaptive multiplier\<close>

lemma deque_append_nonempty: "0 < n \<Longrightarrow> deque_append n q x \<noteq> []"
  by (cases q) (auto simp: deque_append_def)

lemma adjust_rate_limit_multiplier:
  assumes "load_samples A \<noteq> []"
  shows "current_multiplier (adjust_rate_limit A)
           = (if mean (load_samples A) > 80 then max 0.5 (current_multiplier A * 0.8)
              else if mean (load_samples A) < 40 then min 2.0 (current_multiplier A * 1.1)
              else current_multiplier A)"
  using assms by (simp add: adjust_rate_limit_def mean_def Let_def)

lemma adjust_rate_limit_bounds:
  assumes "1/2 \<le> current_multiplier A" "current_multiplier A \<le> 2"
  shows "1/2 \<le> current_multiplier (adjust_rate_limit A) \<and> current_multiplier (adjust_rate_limit A) \<le> 2"
  using assms by (auto simp: adjust_rate_limit_def Let_def)

lemma update_system_load_bounds:
  assumes "1/2 \<le> current_multiplier A" "current_multiplier A \<le> 2"
  shows "1/2 \<le> current_multiplier (update_system_load A c m now)
         \<and> current_multiplier (update_system_load A c m now) \<le> 2"
proof -
  let ?A1 = "A\<lparr>load_samples := deque_append 10 (load_samples A) ((c + m) / 2)\<rparr>"
  have "1/2 \<le> current_multiplier ?A1" "current_multiplier ?A1 \<le> 2"
    using assms by simp_all
  from adjust_rate_limit_bounds[OF this] assms
  show ?thesis
    by (simp add: update_system_load_def Let_def)
qed

lemma feed_loads_bounds:
  assumes "1/2 \<le> current_multiplier A" "current_multiplier A \<le> 2"
  shows "1/2 \<le> current_multiplier (feed_loads A loads)
         \<and> current_multiplier (feed_loads A loads) \<le> 2"
  using assms
proof (induction loads arbitrary: A)
  case Nil
  then show ?case by simp
next
  case (Cons x loads)
  obtain c m now where x: "x = (c, m, now)" by (cases x) auto
  from update_system_load_bounds[OF Cons.prems, of c m now]
  show ?case
    unfolding x feed_loads.simps by (intro Cons.IH) simp_all
qed

text \<open>
  Claim C2, as the code has it. Every call appends the load score to the bounded history.
  When more than 30 seconds have passed since the last adjustment, the multiplier becomes
  \<open>max(0.5, multiplier * 0.8)\<close> if the mean of the retained samples exceeds 80,
  \<open>min(2.0, multiplier * 1.1)\<close> if it is below 40, and stays otherwise; the inner limiter's
  limit becomes \<open>int(base_limit * multiplier)\<close> and the adjustment instant becomes \<open>now\<close>.
  When at most 30 seconds have passed, multiplier, limit and adjustment instant stay as they
  are. From a fresh limiter the multiplier stays within \<open>[0.5, 2.0]\<close> under every sequence
  of calls.
\<close>

theorem update_system_load_multiplier:
  "load_samples (update_system_load A cpu mem now)
     = deque_append 10 (load_samples A) ((cpu + mem) / 2)
   \<and> (30 < now - last_adjustment A \<longrightarrow>
        current_multiplier (update_system_load A cpu mem now)
          = (if mean (load_samples (update_system_load A cpu mem now)) > 80
               then max 0.5 (current_multiplier A * 0.8)
             else if mean (load_samples (update_system_load A cpu mem now)) < 40
               then min 2.0 (current_multiplier A * 1.1)
             else current_multiplier A)
        \<and> max_requests (rate_limiter (update_system_load A cpu mem now))
          = py_int (real_of_int (base_limit A)
                    * current_multiplier (update_system_load A cpu mem now))
        \<and> last_adjustment (update_system_load A cpu mem now) = now)
   \<and> (now - last_adjustment A \<le> 30 \<longrightarrow>
        current_multiplier (update_system_load A cpu mem now) = current_multiplier A
        \<and> rate_limiter (update_system_load A cpu mem now) = rate_limiter A
        \<and> last_adjustment (update_system_load A cpu mem now) = last_adjustment A)
   \<and> 1/2 \<le> current_multiplier (feed_loads (AdaptiveRateLimiter_init b w t0) loads)
   \<and> current_multiplier (feed_loads (AdaptiveRateLimiter_init b w t0) loads) \<le> 2"
proof -
  have ne: "deque_append 10 (load_samples A) ((cpu + mem) / 2) \<noteq> []"
    by (rule deque_append_nonempty) simp
  have init: "1/2 \<le> current_multiplier (AdaptiveRateLimiter_init b w t0)"
    "current_multiplier (AdaptiveRateLimiter_init b w t0) \<le> 2"
    by (simp_all add: AdaptiveRateLimiter_init_def)
  show ?thesis
    using ne feed_loads_bounds[OF init, of loads]
    by (simp add: update_system_load_def adjust_rate_limit_def mean_def Let_def)
qed

text \<open>
  The theorem at work on the global limiter (base limit 200, made at second 0): a load of 90
  reported at second 31 tightens the multiplier to 0.8 and the limit to 160; a load of 10
  reported at second 29 changes nothing.
\<close>

theorem update_system_load_multiplier_witness:
  "30 < 31 - last_adjustment (AdaptiveRateLimiter_init 200 60 0)
   \<and> current_multiplier (update_system_load (AdaptiveRateLimiter_init 200 60 0) 90 90 31) = 4/5
   \<and> max_requests (rate_limiter (update_system_load (AdaptiveRateLimiter_init 200 60 0) 90 90 31))
       = 160
   \<and> 29 - last_adjustment (AdaptiveRateLimiter_init 200 60 0) \<le> 30
   \<and> current_multiplier (update_system_load (AdaptiveRateLimiter_init 200 60 0) 10 10 29) = 1"
  using update_system_load_multiplier[of "AdaptiveRateLimiter_init 200 60 0" 90 90 31 0 0 0 "[]"]
    update_system_load_multiplier[of "AdaptiveRateLimiter_init 200 60 0" 10 10 29 0 0 0 "[]"]
  by (simp add: AdaptiveRateLimiter_init_def deque_append_def mean_def py_int_def)

text \<open>
  Claim C2 as stated fails at exactly 30 seconds: a mean load of 90 reported 30 seconds
  after the last adjustment leaves the multiplier at 1, not at \<open>max(0.5, 1 * 0.8)\<close>.
\<close>

theorem update_system_load_threshold_counterexample:
  "30 \<le> 30 - last_adjustment (AdaptiveRateLimiter_init 200 60 0)
   \<and> 80 < mean (load_samples (update_system_load (AdaptiveRateLimiter_init 200 60 0) 90 90 30))
   \<and> current_multiplier (update_system_load (AdaptiveRateLimiter_init 200 60 0) 90 90 30)
       \<noteq> max 0.5 (current_multiplier (AdaptiveRateLimiter_init 200 60 0) * 0.8)"
  by (simp add: update_system_load_def AdaptiveRateLimiter_init_def deque_append_def mean_def
      Let_def)

subsection \<open>The middleware\<close>

lemma is_allowed_rejected_remaining:
  assumes "is_allowed L i now = ((False, info), L')"
  shows "remaining info = 0"
  using assms by (auto simp: is_allowed_def Let_def split: if_splits)

lemma is_allowed_limit:
  assumes "is_allowed L i now = ((ok, info), L')"
  shows "limit info = max_requests L"
  using assms by (auto simp: is_allowed_def Let_def)

text \<open>
  Claim C7. Let the limiter that the middleware consults answer \<open>(ok, info)\<close>. If it
  rejects, the middleware returns (it does not raise) a response of status 429 whose headers
  are \<open>X-RateLimit-Limit\<close> (the limit), \<open>X-RateLimit-Remaining\<close> (0),
  \<open>X-RateLimit-Reset\<close> (the reset instant) and \<open>Retry-After\<close> (the window length in
  seconds), and the downstream handler is not run. If it admits and the downstream handler
  returns a response, the middleware returns that response with the three
  \<open>X-RateLimit-*\<close> headers set from \<open>info\<close>.
\<close>

theorem rate_limit_middleware_headers:
  assumes "is_allowed (selected_limiter G request) (selected_identifier request) now
             = ((ok, info), L')"
  shows "(\<not> ok \<longrightarrow>
            rate_limit_middleware G now request call_next w
              = (Inr \<lparr>status_code = 429, content = ''Rate limit exceeded'',
                      response_headers =
                        [''X-RateLimit-Limit'' \<mapsto> py_str (max_requests (selected_limiter G request)),
                         ''X-RateLimit-Remaining'' \<mapsto> py_str 0,
                         ''X-RateLimit-Reset'' \<mapsto> py_str (reset info),
                         ''Retry-After'' \<mapsto> py_str (window_seconds (selected_limiter G request))]\<rparr>,
                 if url_path request = ''/receive-message''
                 then G\<lparr>twilio_rate_limiter := L'\<rparr> else G\<lparr>ip_rate_limiter := L'\<rparr>,
                 w))
       \<and> (ok \<and> call_next request w = (Inr response, w') \<longrightarrow>
            rate_limit_middleware G now request call_next w
              = (Inr (response\<lparr>response_headers := (response_headers response)
                        (''X-RateLimit-Limit'' \<mapsto> py_str (max_requests (selected_limiter G request)),
                         ''X-RateLimit-Remaining'' \<mapsto> py_str (remaining info),
                         ''X-RateLimit-Reset'' \<mapsto> py_str (reset info))\<rparr>),
                 if url_path request = ''/receive-message''
                 then G\<lparr>twilio_rate_limiter := L'\<rparr> else G\<lparr>ip_rate_limiter := L'\<rparr>,
                 w'))"
proof (intro conjI impI)
  assume "\<not> ok"
  with assms have r: "is_allowed (selected_limiter G request) (selected_identifier request) now
             = ((False, info), L')" by simp
  from is_allowed_rejected_remaining[OF r] is_allowed_limit[OF r] r
  show "rate_limit_middleware G now request call_next w
              = (Inr \<lparr>status_code = 429, content = ''Rate limit exceeded'',
                      response_headers =
                        [''X-RateLimit-Limit'' \<mapsto> py_str (max_requests (selected_limiter G request)),
                         ''X-RateLimit-Remaining'' \<mapsto> py_str 0,
                         ''X-RateLimit-Reset'' \<mapsto> py_str (reset info),
                         ''Retry-After'' \<mapsto> py_str (window_seconds (selected_limiter G request))]\<rparr>,
                 if url_path request = ''/receive-message''
                 then G\<lparr>twilio_rate_limiter := L'\<rparr> else G\<lparr>ip_rate_limiter := L'\<rparr>,
                 w)"
    by (simp add: rate_limit_middleware_def selected_limiter_def selected_identifier_def Let_def
        split: if_splits)
next
  assume "ok \<and> call_next request w = (Inr response, w')"
  then have c: "call_next request w = (Inr response, w')" and "ok" by simp_all
  with assms have r: "is_allowed (selected_limiter G request) (selected_identifier request) now
             = ((True, info), L')" by simp
  from is_allowed_limit[OF r] r c
  show "rate_limit_middleware G now request call_next w
              = (Inr (response\<lparr>response_headers := (response_headers response)
                        (''X-RateLimit-Limit'' \<mapsto> py_str (max_requests (selected_limiter G request)),
                         ''X-RateLimit-Remaining'' \<mapsto> py_str (remaining info),
                         ''X-RateLimit-Reset'' \<mapsto> py_str (reset info))\<rparr>),
                 if url_path request = ''/receive-message''
                 then G\<lparr>twilio_rate_limiter := L'\<rparr> else G\<lparr>ip_rate_limiter := L'\<rparr>,
                 w')"
    by (simp add: rate_limit_middleware_def selected_limiter_def selected_identifier_def Let_def
        split: if_splits)
qed


text \<open>
  The theorem at work: a client that has used its single slot gets 429 with
  \<open>Retry-After: 60\<close>; the first webhook request on the fresh global limiters gets the
  handler's response with limit 30 and 29 remaining.
\<close>

theorem rate_limit_middleware_headers_witness:
  "fst (rate_limit_middleware
          \<lparr>ip_rate_limiter = \<lparr>max_requests = 1, window_seconds = 60,
                               requests = [''10.0.0.1'' \<mapsto> [5]]\<rparr>,
           twilio_rate_limiter = RateLimiter_init 30 60\<rparr>
          10
          \<lparr>url_path = ''/health'', headers = Map.empty, client_host = Some ''10.0.0.1''\<rparr>
          (\<lambda>request w. (Inl ''not reached'', w)) (0::nat))
     = Inr \<lparr>status_code = 429, content = ''Rate limit exceeded'',
            response_headers =
              [''X-RateLimit-Limit'' \<mapsto> ''1'', ''X-RateLimit-Remaining'' \<mapsto> ''0'',
               ''X-RateLimit-Reset'' \<mapsto> ''70'', ''Retry-After'' \<mapsto> ''60'']\<rparr>
   \<and> fst (rate_limit_middleware limiters_init 10
          \<lparr>url_path = ''/receive-message'', headers = Map.empty, client_host = None\<rparr>
          (\<lambda>request w. (Inr \<lparr>status_code = 200, content = ''ok'',
                                response_headers = Map.empty\<rparr>, Suc w)) (0::nat))
     = Inr \<lparr>status_code = 200, content = ''ok'',
            response_headers =
              [''X-RateLimit-Limit'' \<mapsto> ''30'', ''X-RateLimit-Remaining'' \<mapsto> ''29'',
               ''X-RateLimit-Reset'' \<mapsto> ''70'']\<rparr>"
proof -
  let ?G = "\<lparr>ip_rate_limiter = \<lparr>max_requests = 1, window_seconds = 60,
                               requests = [''10.0.0.1'' \<mapsto> [5]]\<rparr>,
           twilio_rate_limiter = RateLimiter_init 30 60\<rparr>"
  let ?q = "\<lparr>url_path = ''/health'', headers = Map.empty, client_host = Some ''10.0.0.1''\<rparr>"
  let ?r = "is_allowed (selected_limiter ?G ?q) (selected_identifier ?q) 10"
  have h: "?r = ((fst (fst ?r), snd (fst ?r)), snd ?r)" by simp
  have no: "\<not> fst (fst ?r)"
    by (simp add: is_allowed_def selected_limiter_def selected_identifier_def
        get_identifier_def request_times_def Let_def)
  have v: "py_str (max_requests (selected_limiter ?G ?q)) = ''1''" "py_str 0 = ''0''"
    "py_str (reset (snd (fst ?r))) = ''70''"
    "py_str (window_seconds (selected_limiter ?G ?q)) = ''60''"
    by (simp_all add: is_allowed_def selected_limiter_def selected_identifier_def
        get_identifier_def request_times_def Let_def py_str_def py_int_def)
  have a: "fst (rate_limit_middleware ?G 10 ?q (\<lambda>request w. (Inl ''not reached'', w)) (0::nat))
     = Inr \<lparr>status_code = 429, content = ''Rate limit exceeded'',
            response_headers =
              [''X-RateLimit-Limit'' \<mapsto> ''1'', ''X-RateLimit-Remaining'' \<mapsto> ''0'',
               ''X-RateLimit-Reset'' \<mapsto> ''70'', ''Retry-After'' \<mapsto> ''60'']\<rparr>"
    using rate_limit_middleware_headers[where call_next = "\<lambda>request w. (Inl ''not reached'', w)"
        and w = "0::nat", OF h, THEN conjunct1, THEN mp, OF no]
    by (simp only: v fst_conv)
  let ?q2 = "\<lparr>url_path = ''/receive-message'', headers = Map.empty, client_host = None\<rparr>"
  let ?cn = "\<lambda>(request::Request) w. (Inr \<lparr>status_code = 200, content = ''ok'',
                                response_headers = Map.empty\<rparr> :: string + Response, Suc w)"
  let ?r2 = "is_allowed (selected_limiter limiters_init ?q2) (selected_identifier ?q2) 10"
  have h2: "?r2 = ((fst (fst ?r2), snd (fst ?r2)), snd ?r2)" by simp
  have yes: "fst (fst ?r2) \<and> ?cn ?q2 0 = (Inr \<lparr>status_code = 200, content = ''ok'',
                                response_headers = Map.empty\<rparr>, Suc 0)"
    by (simp add: is_allowed_def selected_limiter_def selected_identifier_def limiters_init_def
        RateLimiter_init_def request_times_def Let_def)
  have v2: "py_str (max_requests (selected_limiter limiters_init ?q2)) = ''30''"
    "py_str (remaining (snd (fst ?r2))) = ''29''"
    "py_str (reset (snd (fst ?r2))) = ''70''"
    by (simp_all add: is_allowed_def selected_limiter_def selected_identifier_def
        limiters_init_def RateLimiter_init_def request_times_def Let_def py_str_def py_int_def)
  have b: "fst (rate_limit_middleware limiters_init 10 ?q2 ?cn (0::nat))
     = Inr \<lparr>status_code = 200, content = ''ok'',
            response_headers =
              [''X-RateLimit-Limit'' \<mapsto> ''30'', ''X-RateLimit-Remaining'' \<mapsto> ''29'',
               ''X-RateLimit-Reset'' \<mapsto> ''70'']\<rparr>"
    using rate_limit_middleware_headers[where call_next = ?cn and w = "0::nat"
        and response = "\<lparr>status_code = 200, content = ''ok'', response_headers = Map.empty\<rparr>"
        and w' = "Suc 0", OF h2] yes
    by (simp add: v2)
  from a b show ?thesis by (rule conjI)
qed

section \<open>Properties of the persistent state\<close>

lemma backup_differs: "p @ ''.backup'' \<noteq> p"
  by simp

lemma save_state_keeps_state: "state (fst (save_state wr (P, fs))) = state P"
  by (cases wr) (simp_all add: save_state_def Let_def)

lemma save_state_written:
  "snd (save_state Written (P, fs)) (state_file P) = Some (Doc (state P))"
  "snd (save_state Written (P, fs)) (state_file P @ ''.backup'')
     = (if fs (state_file P) \<noteq> None then fs (state_file P) else fs (state_file P @ ''.backup''))"
  by (simp_all add: save_state_def os_rename_def Let_def)

lemma save_state_failed_restores:
  assumes "wr \<noteq> Written" "fs (state_file P) \<noteq> None"
  shows "snd (save_state wr (P, fs)) (state_file P) = fs (state_file P)"
    and "snd (save_state wr (P, fs)) (state_file P @ ''.backup'') = None"
  using assms by (cases wr; auto simp: save_state_def os_rename_def Let_def)+

lemma save_state_failed_stale_backup:
  assumes "wr \<noteq> Written" "fs (state_file P) = None" "fs (state_file P @ ''.backup'') \<noteq> None"
  shows "snd (save_state wr (P, fs)) (state_file P) = fs (state_file P @ ''.backup'')"
    and "snd (save_state wr (P, fs)) (state_file P @ ''.backup'') = None"
  using assms by (cases wr; auto simp: save_state_def os_rename_def Let_def)+

lemma save_state_failed_first_write:
  assumes "wr \<noteq> Written" "fs (state_file P) = None" "fs (state_file P @ ''.backup'') = None"
  shows "snd (save_state wr (P, fs)) (state_file P)
           = (case wr of DumpFails e e' \<Rightarrow> Some (Corrupt e') | _ \<Rightarrow> None)"
    and "snd (save_state wr (P, fs)) (state_file P @ ''.backup'') = None"
  using assms by (cases wr; auto simp: save_state_def os_rename_def Let_def)+

lemma save_state_other_files:
  assumes "p \<noteq> state_file P" "p \<noteq> state_file P @ ''.backup''"
  shows "snd (save_state wr (P, fs)) p = fs p"
  using assms by (cases wr) (auto simp: save_state_def os_rename_def Let_def)

lemma save_state_keeps_path: "state_file (fst (save_state wr (P, fs))) = state_file P"
  by (cases wr) (simp_all add: save_state_def Let_def)

lemma load_state_cases:
  "fs (state_file P) = None \<Longrightarrow> state (load_state fs P) = []"
  "fs (state_file P) = Some (Corrupt e) \<Longrightarrow> state (load_state fs P) = []"
  "fs (state_file P) = Some (Doc d) \<Longrightarrow> state (load_state fs P) = d"
  by (simp_all add: load_state_def)

lemma load_state_depends_on_primary:
  assumes "state_file P' = state_file P" "fs' (state_file P) = fs (state_file P)"
  shows "state (load_state fs' P') = state (load_state fs P)"
  using assms by (simp add: load_state_def split: option.splits contents.splits)

lemma load_after_save:
  assumes "fs (state_file P) = None \<longrightarrow> fs (state_file P @ ''.backup'') = None"
  shows "state (load_state (snd (save_state wr (P, fs))) (fst (save_state wr (P, fs))))
           = (if wr = Written then state P else state (load_state fs P))"
proof (cases "wr = Written")
  case True
  then show ?thesis
    using save_state_written(1)[of P fs]
    by (simp add: load_state_cases(3) save_state_keeps_path)
next
  case False
  show ?thesis
  proof (cases "fs (state_file P) = None")
    case True
    with assms have b: "fs (state_file P @ ''.backup'') = None" by simp
    from save_state_failed_first_write(1)[of wr fs P, OF False True b]
    have "state (load_state (snd (save_state wr (P, fs))) (fst (save_state wr (P, fs)))) = []"
      by (cases wr) (simp_all add: load_state_cases save_state_keeps_path)
    with True False show ?thesis by (simp add: load_state_cases)
  next
    case nonempty: False
    from save_state_failed_restores(1)[of wr fs P, OF False nonempty]
    have "state (load_state (snd (save_state wr (P, fs))) (fst (save_state wr (P, fs))))
            = state (load_state fs P)"
      by (intro load_state_depends_on_primary) (simp_all add: save_state_keeps_path)
    with False show ?thesis by simp
  qed
qed


text \<open>
  Claim C4, as the code has it. \<open>save_state\<close> never changes the dictionary in memory nor
  any file but the primary and its backup. A write that succeeds leaves the new document at
  the primary path and the former primary, if there was one, at the backup path. A write that
  fails with a primary in place beforehand leaves that former content at the primary path
  again and no backup; with no primary but a backup beforehand, it moves the backup to the
  primary path; with neither, what the failed write left (nothing, or a partial file) stays
  at the primary path. Unless a backup stood there without a primary, \<open>load_state\<close> after
  \<open>save_state\<close> yields the new dictionary when the write succeeded and what it yielded
  before when the write failed. \<open>load_state\<close> itself yields the empty dictionary for a
  missing file and for a corrupt file (logging the error), and the document otherwise; it is
  defined for every file system, so nothing is raised to the caller.
\<close>

theorem save_state_backup_protocol:
  "state (fst (save_state wr (P, fs))) = state P
   \<and> (\<forall>p. p \<noteq> state_file P \<and> p \<noteq> state_file P @ ''.backup''
          \<longrightarrow> snd (save_state wr (P, fs)) p = fs p)
   \<and> (wr = Written \<longrightarrow>
        snd (save_state wr (P, fs)) (state_file P) = Some (Doc (state P))
        \<and> snd (save_state wr (P, fs)) (state_file P @ ''.backup'')
            = (if fs (state_file P) \<noteq> None then fs (state_file P)
               else fs (state_file P @ ''.backup'')))
   \<and> (wr \<noteq> Written \<and> fs (state_file P) \<noteq> None \<longrightarrow>
        snd (save_state wr (P, fs)) (state_file P) = fs (state_file P)
        \<and> snd (save_state wr (P, fs)) (state_file P @ ''.backup'') = None)
   \<and> (wr \<noteq> Written \<and> fs (state_file P) = None \<and> fs (state_file P @ ''.backup'') \<noteq> None \<longrightarrow>
        snd (save_state wr (P, fs)) (state_file P) = fs (state_file P @ ''.backup'')
        \<and> snd (save_state wr (P, fs)) (state_file P @ ''.backup'') = None)
   \<and> (wr \<noteq> Written \<and> fs (state_file P) = None \<and> fs (state_file P @ ''.backup'') = None \<longrightarrow>
        snd (save_state wr (P, fs)) (state_file P)
          = (case wr of DumpFails e e' \<Rightarrow> Some (Corrupt e') | _ \<Rightarrow> None)
        \<and> snd (save_state wr (P, fs)) (state_file P @ ''.backup'') = None)
   \<and> ((fs (state_file P) = None \<longrightarrow> fs (state_file P @ ''.backup'') = None) \<longrightarrow>
        state (load_state (snd (save_state wr (P, fs))) (fst (save_state wr (P, fs))))
          = (if wr = Written then state P else state (load_state fs P)))
   \<and> (fs (state_file P) = None \<longrightarrow> state (load_state fs P) = [])
   \<and> (\<forall>e. fs (state_file P) = Some (Corrupt e) \<longrightarrow>
          state (load_state fs P) = []
          \<and> ps_logged (load_state fs P)
              = ps_logged P @ [(ERROR, ''Failed to load persistent state: '' @ e)])
   \<and> (\<forall>d. fs (state_file P) = Some (Doc d) \<longrightarrow> state (load_state fs P) = d)"
proof -
  have 1: "state (fst (save_state wr (P, fs))) = state P"
    by (rule save_state_keeps_state)
  have 2: "\<forall>p. p \<noteq> state_file P \<and> p \<noteq> state_file P @ ''.backup''
          \<longrightarrow> snd (save_state wr (P, fs)) p = fs p"
    by (simp add: save_state_other_files)
  have 3: "wr = Written \<longrightarrow>
        snd (save_state wr (P, fs)) (state_file P) = Some (Doc (state P))
        \<and> snd (save_state wr (P, fs)) (state_file P @ ''.backup'')
            = (if fs (state_file P) \<noteq> None then fs (state_file P)
               else fs (state_file P @ ''.backup''))"
    using save_state_written[of P fs] by simp
  have 4: "wr \<noteq> Written \<and> fs (state_file P) \<noteq> None \<longrightarrow>
        snd (save_state wr (P, fs)) (state_file P) = fs (state_file P)
        \<and> snd (save_state wr (P, fs)) (state_file P @ ''.backup'') = None"
    using save_state_failed_restores[of wr fs P] by blast
  have 5: "wr \<noteq> Written \<and> fs (state_file P) = None \<and> fs (state_file P @ ''.backup'') \<noteq> None \<longrightarrow>
        snd (save_state wr (P, fs)) (state_file P) = fs (state_file P @ ''.backup'')
        \<and> snd (save_state wr (P, fs)) (state_file P @ ''.backup'') = None"
    using save_state_failed_stale_backup[of wr fs P] by blast
  have 6: "wr \<noteq> Written \<and> fs (state_file P) = None \<and> fs (state_file P @ ''.backup'') = None \<longrightarrow>
        snd (save_state wr (P, fs)) (state_file P)
          = (case wr of DumpFails e e' \<Rightarrow> Some (Corrupt e') | _ \<Rightarrow> None)
        \<and> snd (save_state wr (P, fs)) (state_file P @ ''.backup'') = None"
    using save_state_failed_first_write[of wr fs P] by blast
  have 7: "(fs (state_file P) = None \<longrightarrow> fs (state_file P @ ''.backup'') = None) \<longrightarrow>
        state (load_state (snd (save_state wr (P, fs))) (fst (save_state wr (P, fs))))
          = (if wr = Written then state P else state (load_state fs P))"
    using load_after_save[of fs P wr] by blast
  have 8: "fs (state_file P) = None \<longrightarrow> state (load_state fs P) = []"
    by (simp add: load_state_def)
  have 9: "\<forall>e. fs (state_file P) = Some (Corrupt e) \<longrightarrow>
          state (load_state fs P) = []
          \<and> ps_logged (load_state fs P)
              = ps_logged P @ [(ERROR, ''Failed to load persistent state: '' @ e)]"
    by (simp add: load_state_def)
  have 10: "\<forall>d. fs (state_file P) = Some (Doc d) \<longrightarrow> state (load_state fs P) = d"
    by (simp add: load_state_def)
  from 1 2 3 4 5 6 7 8 9 10 show ?thesis by blast
qed

text \<open>
  The theorem at work on a store whose file holds \<open>a = 1\<close> while the dictionary in memory
  holds \<open>a = 2\<close>: a failed write leaves \<open>a = 1\<close> at the primary path and no backup; a
  successful one leaves \<open>a = 2\<close> there and \<open>a = 1\<close> as the backup.
\<close>

theorem save_state_backup_protocol_witness:
  "DumpFails ''TypeError'' ''Expecting value'' \<noteq> Written
   \<and> [''s.json'' \<mapsto> Doc [(''a'', 1::int)]] ''s.json'' \<noteq> None
   \<and> snd (save_state (DumpFails ''TypeError'' ''Expecting value'')
            (\<lparr>state_file = ''s.json'', state = [(''a'', 2)], ps_logged = []\<rparr>,
             [''s.json'' \<mapsto> Doc [(''a'', 1::int)]])) ''s.json''
       = Some (Doc [(''a'', 1)])
   \<and> snd (save_state (DumpFails ''TypeError'' ''Expecting value'')
            (\<lparr>state_file = ''s.json'', state = [(''a'', 2)], ps_logged = []\<rparr>,
             [''s.json'' \<mapsto> Doc [(''a'', 1::int)]])) ''s.json.backup''
       = None
   \<and> snd (save_state Written
            (\<lparr>state_file = ''s.json'', state = [(''a'', 2)], ps_logged = []\<rparr>,
             [''s.json'' \<mapsto> Doc [(''a'', 1::int)]])) ''s.json''
       = Some (Doc [(''a'', 2)])
   \<and> snd (save_state Written
            (\<lparr>state_file = ''s.json'', state = [(''a'', 2)], ps_logged = []\<rparr>,
             [''s.json'' \<mapsto> Doc [(''a'', 1::int)]])) ''s.json.backup''
       = Some (Doc [(''a'', 1)])"
  using save_state_backup_protocol[of "DumpFails ''TypeError'' ''Expecting value''"
      "\<lparr>state_file = ''s.json'', state = [(''a'', 2)], ps_logged = []\<rparr>"
      "[''s.json'' \<mapsto> Doc [(''a'', 1::int)]]"]
    save_state_backup_protocol[of Written
      "\<lparr>state_file = ''s.json'', state = [(''a'', 2)], ps_logged = []\<rparr>"
      "[''s.json'' \<mapsto> Doc [(''a'', 1::int)]]"]
  by simp

text \<open>
  Claim C4 as stated fails on the first save of a store: with no file and no backup on disk,
  a \<open>json.dump\<close> that raises part-way leaves the partial file at the primary path, and there
  is no backup to restore.
\<close>

theorem save_state_first_write_counterexample:
  "snd (save_state (DumpFails ''TypeError'' ''Expecting value'')
          (\<lparr>state_file = ''persistent_state.json'', state = [(''k'', 1::int)], ps_logged = []\<rparr>,
           Map.empty)) ''persistent_state.json''
     = Some (Corrupt ''Expecting value'')
   \<and> snd (save_state (DumpFails ''TypeError'' ''Expecting value'')
          (\<lparr>state_file = ''persistent_state.json'', state = [(''k'', 1::int)], ps_logged = []\<rparr>,
           Map.empty)) ''persistent_state.json.backup''
     = None"
  by (simp add: save_state_def Let_def)

text \<open>
  Claim C8. Whatever the store holds and however the write to disk ends, \<open>get(key)\<close> right
  after \<open>set(key, value)\<close> returns \<open>value\<close>.
\<close>

theorem set_then_get: "PersistentState_get key dflt (fst (PersistentState_set key v wr (P, fs))) = v"
  by (simp add: PersistentState_get_def PersistentState_set_def save_state_keeps_state
      AList.update_conv')

text \<open>
  Claim C9. \<open>delete\<close> of a key that the dictionary does not hold returns the store and the
  file system as they were: nothing is saved, no file is renamed or written, nothing logged.
\<close>

theorem delete_absent_key:
  assumes "key \<notin> fst ` set (state P)"
  shows "PersistentState_delete key wr (P, fs) = (P, fs)"
  using assms by (simp add: PersistentState_delete_def)

text \<open>
  The theorem at work: deleting \<open>b\<close> from a store that holds only \<open>a\<close>, with a write that
  would succeed were it attempted.
\<close>

theorem delete_absent_key_witness:
  "''b'' \<notin> fst ` set (state \<lparr>state_file = ''s.json'', state = [(''a'', 1::int)], ps_logged = []\<rparr>)
   \<and> PersistentState_delete ''b'' Written
        (\<lparr>state_file = ''s.json'', state = [(''a'', 1::int)], ps_logged = []\<rparr>,
         [''s.json'' \<mapsto> Doc [(''a'', 1)]])
     = (\<lparr>state_file = ''s.json'', state = [(''a'', 1)], ps_logged = []\<rparr>,
        [''s.json'' \<mapsto> Doc [(''a'', 1)]])"
proof -
  have h: "''b'' \<notin> fst ` set (state \<lparr>state_file = ''s.json'', state = [(''a'', 1::int)],
                                       ps_logged = []\<rparr>)"
    by simp
  from h delete_absent_key[OF h, of Written "[''s.json'' \<mapsto> Doc [(''a'', 1)]]"]
  show ?thesis by (rule conjI)
qed

section \<open>Properties of the health checker\<close>

lemma update_fresh_key: "k \<notin> fst ` set al \<Longrightarrow> AList.update k v al = al @ [(k, v)]"
  by (induction al) auto

lemma length_outcomes: "length (outcomes cs w) = length cs"
  by (induction cs w rule: outcomes.induct) (auto split: prod.splits)

lemma run_checks_results:
  assumes "distinct (map fst cs)" "set (map fst cs) \<inter> fst ` set acc = {}"
  shows "fst (run_checks cs acc ok w lg) = acc @ zip (map fst cs) (map result_of (outcomes cs w))"
  using assms
proof (induction cs acc ok w lg rule: run_checks.induct)
  case (1 results overall_healthy w lg)
  then show ?case by simp
next
  case (2 name check_func rest results overall_healthy w lg)
  obtain oc w' where c: "check_func w = (oc, w')" by (cases "check_func w") auto
  have fresh: "name \<notin> fst ` set results" using "2.prems" by auto
  have d: "distinct (map fst rest)" using "2.prems" by simp
  show ?case
  proof (cases oc)
    case (Returns b)
    have "set (map fst rest) \<inter> fst ` set (results @ [(name, result_of oc)]) = {}"
      using "2.prems" by auto
    with "2.IH"(1)[OF c[unfolded Returns, symmetric] refl d] c Returns fresh show ?thesis
      by (simp add: update_fresh_key result_of_def)
  next
    case (Raises e)
    have "set (map fst rest) \<inter> fst ` set (results @ [(name, result_of oc)]) = {}"
      using "2.prems" by auto
    with "2.IH"(2)[OF c[unfolded Raises, symmetric] refl d] c Raises fresh show ?thesis
      by (simp add: update_fresh_key result_of_def)
  qed
qed

lemma run_checks_overall:
  "fst (snd (run_checks cs acc ok w lg))
     = (ok \<and> (\<forall>oc\<in>set (outcomes cs w). oc = Returns True))"
proof (induction cs acc ok w lg rule: run_checks.induct)
  case (1 results overall_healthy w lg)
  then show ?case by simp
next
  case (2 name check_func rest results overall_healthy w lg)
  obtain oc w' where c: "check_func w = (oc, w')" by (cases "check_func w") auto
  show ?case
  proof (cases oc)
    case (Returns b)
    with "2.IH"(1)[OF c[unfolded Returns, symmetric] refl] c show ?thesis
      by auto
  next
    case (Raises e)
    with "2.IH"(2)[OF c[unfolded Raises, symmetric] refl] c show ?thesis
      by auto
  qed
qed


text \<open>
  Claim C6. For a registry with distinct names (a dictionary), \<open>run_health_checks\<close> returns
  a report (it is defined for every registry and every behaviour of the checks, so no check's
  exception reaches the caller) that holds one result per registered check, in registration
  order: status \<open>healthy\<close> for a check that returned a true value, \<open>unhealthy\<close> for one
  that returned a false value, and \<open>error\<close> together with the message for one that raised.
  The overall status is \<open>healthy\<close> iff every check returned a true value, and \<open>unhealthy\<close>
  otherwise; the checker remembers it.
\<close>

theorem run_health_checks_report:
  assumes "distinct (map fst (health_checks H))"
  shows "(case run_health_checks H w of
            (report, H', w') \<Rightarrow>
              checks report
                = zip (map fst (health_checks H))
                      (map result_of (outcomes (health_checks H) w))
            \<and> length (checks report) = length (health_checks H)
            \<and> (overall_status report = ''healthy''
                 \<longleftrightarrow> (\<forall>oc\<in>set (outcomes (health_checks H) w). oc = Returns True))
            \<and> (overall_status report \<noteq> ''healthy'' \<longrightarrow> overall_status report = ''unhealthy'')
            \<and> health_status H' = overall_status report)
       \<and> result_of (Returns True) = \<lparr>status = ''healthy'', error = None\<rparr>
       \<and> result_of (Returns False) = \<lparr>status = ''unhealthy'', error = None\<rparr>
       \<and> result_of (Raises e) = \<lparr>status = ''error'', error = Some e\<rparr>"
proof -
  obtain results ok w' lg where
    r: "run_checks (health_checks H) [] True w (hc_logged H) = (results, ok, w', lg)"
    by (metis prod.exhaust)
  from run_checks_results[OF assms, of "[]" True w "hc_logged H"] r
  have res: "results = zip (map fst (health_checks H))
                           (map result_of (outcomes (health_checks H) w))"
    by simp
  from run_checks_overall[of "health_checks H" "[]" True w "hc_logged H"] r
  have ok: "ok = (\<forall>oc\<in>set (outcomes (health_checks H) w). oc = Returns True)"
    by simp
  have len: "length results = length (health_checks H)"
    by (simp add: res length_outcomes)
  show ?thesis
    using res ok len by (simp add: run_health_checks_def r Let_def result_of_def)
qed

text \<open>
  The theorem at work on three checks: one returns a true value, one a false value, one
  raises \<open>boom\<close>. All three have a result and the aggregate is \<open>unhealthy\<close>.
\<close>

theorem run_health_checks_report_witness:
  "distinct (map fst [(''scheduler'', \<lambda>w::nat. (Returns True, w)),
                      (''state_file'', \<lambda>w. (Returns False, Suc w)),
                      (''probe'', \<lambda>w. (Raises ''boom'', w))])
   \<and> fst (run_health_checks
            \<lparr>health_checks = [(''scheduler'', \<lambda>w::nat. (Returns True, w)),
                              (''state_file'', \<lambda>w. (Returns False, Suc w)),
                              (''probe'', \<lambda>w. (Raises ''boom'', w))],
             health_status = ''unknown'', hc_logged = []\<rparr> 0)
       = \<lparr>overall_status = ''unhealthy'',
          checks = [(''scheduler'', \<lparr>status = ''healthy'', error = None\<rparr>),
                    (''state_file'', \<lparr>status = ''unhealthy'', error = None\<rparr>),
                    (''probe'', \<lparr>status = ''error'', error = Some ''boom''\<rparr>)]\<rparr>"
proof -
  let ?cs = "[(''scheduler'', \<lambda>w::nat. (Returns True, w)),
              (''state_file'', \<lambda>w. (Returns False, Suc w)),
              (''probe'', \<lambda>w. (Raises ''boom'', w))]"
  let ?H = "\<lparr>health_checks = ?cs, health_status = ''unknown'', hc_logged = []\<rparr>"
  have d: "distinct (map fst (health_checks ?H))" by simp
  obtain report H' w' where r: "run_health_checks ?H 0 = (report, H', w')"
    by (metis prod.exhaust)
  from run_health_checks_report[OF d, of 0] r
  have "checks report = [(''scheduler'', \<lparr>status = ''healthy'', error = None\<rparr>),
                    (''state_file'', \<lparr>status = ''unhealthy'', error = None\<rparr>),
                    (''probe'', \<lparr>status = ''error'', error = Some ''boom''\<rparr>)]"
    and "overall_status report = ''unhealthy''"
    by (simp_all add: result_of_def)
  then have "report = \<lparr>overall_status = ''unhealthy'',
          checks = [(''scheduler'', \<lparr>status = ''healthy'', error = None\<rparr>),
                    (''state_file'', \<lparr>status = ''unhealthy'', error = None\<rparr>),
                    (''probe'', \<lparr>status = ''error'', error = Some ''boom''\<rparr>)]\<rparr>"
    by simp
  with r d show ?thesis by simp
qed

text \<open>
  Claim C10. With no check registered the report is \<open>healthy\<close> and holds no result; the
  checker records \<open>healthy\<close> and nothing else changes.
\<close>

theorem run_health_checks_empty:
  "run_health_checks (H\<lparr>health_checks := []\<rparr>) w
     = (\<lparr>overall_status = ''healthy'', checks = []\<rparr>,
        H\<lparr>health_checks := [], health_status := ''healthy''\<rparr>, w)"
  by (simp add: run_health_checks_def Let_def)

section \<open>Properties of the service manager\<close>

subsection \<open>Cleanup handlers\<close>

lemma invoke_handler_handlers [simp]:
  "cleanup_handlers (snd (invoke_handler k S)) = cleanup_handlers S"
  by (simp add: invoke_handler_def split: prod.splits option.splits)

lemma invoke_handler_named:
  assumes "cleanup_handlers S ! k = (Some name, h)"
  shows "invoke_handler k S =
           (Returned,
            S\<lparr>world := snd (h (world S)), effects := effects S @ [Invoke (Some name)],
              logged := logged S @ [handler_line name (fst (h (world S)))]\<rparr>)"
  using assms by (simp add: invoke_handler_def split: prod.splits)

lemma invoke_handler_nameless:
  assumes "cleanup_handlers S ! k = (None, h)"
  shows "invoke_handler k S =
           (Raised ''AttributeError'',
            S\<lparr>world := snd (h (world S)), effects := effects S @ [Invoke None]\<rparr>)"
  using assms by (simp add: invoke_handler_def split: prod.splits)

lemma clean_from_nameless:
  assumes "k < length (cleanup_handlers S)" "cleanup_handlers S ! k = (None, h)"
  shows "clean_from k S =
           (Raised ''AttributeError'',
            S\<lparr>world := snd (h (world S)), effects := effects S @ [Invoke None]\<rparr>)"
  using assms by (subst clean_from.simps) (simp add: invoke_handler_nameless)

lemma length_handler_outcomes: "length (handler_outcomes hs w) = length hs"
  by (induction hs w rule: handler_outcomes.induct) (auto split: prod.splits)

lemma clean_from_named:
  assumes "\<forall>h\<in>set (drop k (cleanup_handlers S)). named h"
  shows "clean_from k S =
           (Returned,
            S\<lparr>world := foldl (\<lambda>w h. snd (snd h w)) (world S) (drop k (cleanup_handlers S)),
              effects := effects S @ map (\<lambda>h. Invoke (fst h)) (drop k (cleanup_handlers S)),
              logged := logged S
                @ map (\<lambda>(h, outcome). handler_line (the (fst h)) outcome)
                    (zip (drop k (cleanup_handlers S))
                         (handler_outcomes (drop k (cleanup_handlers S)) (world S)))\<rparr>)"
  using assms
proof (induction k S rule: clean_from.induct)
  case (1 k S)
  show ?case
  proof (cases "k < length (cleanup_handlers S)")
    case False
    then show ?thesis by (subst clean_from.simps) simp
  next
    case True
    obtain nm h where kh: "cleanup_handlers S ! k = (nm, h)" by (cases "cleanup_handlers S ! k")
    from True have d: "drop k (cleanup_handlers S) = (nm, h) # drop (Suc k) (cleanup_handlers S)"
      by (simp add: kh[symmetric] Cons_nth_drop_Suc)
    with "1.prems" obtain name where nm: "nm = Some name" by (auto simp: named_def)
    let ?S' = "S\<lparr>world := snd (h (world S)), effects := effects S @ [Invoke (Some name)],
                  logged := logged S @ [handler_line name (fst (h (world S)))]\<rparr>"
    have inv: "invoke_handler k S = (Returned, ?S')"
      using kh nm by (simp add: invoke_handler_named)
    have rest: "\<forall>h\<in>set (drop (Suc k) (cleanup_handlers ?S')). named h"
      using "1.prems" d by simp
    have "clean_from k S = clean_from (Suc k) ?S'"
      using True inv by (subst clean_from.simps) simp
    also note "1.IH"[OF True inv[symmetric] refl rest]
    finally show ?thesis
      by (simp add: d nm split: prod.splits)
  qed
qed


subsection \<open>Cancelling the background tasks\<close>

lemma task_done_update: "task_done t \<Longrightarrow> t\<lparr>task_done := True\<rparr> = t"
  by simp




subsection \<open>One call of shutdown\<close>
















subsection \<open>Concurrent calls of shutdown\<close>





















text \<open>
  Claim C5, where the code departs from it. Of two registered handlers the first is a
  callable without \<open>__name__\<close> that returns normally, the second a function. The first is
  called; the log line about it raises \<open>AttributeError\<close> in the \<open>try\<close> and again in the
  \<open>except\<close>, the exception leaves \<open>_run_cleanup_handlers\<close>, and the second handler is
  never called: it has not acted on the process state and no effect or log line names it.
\<close>

theorem run_cleanup_handlers_nameless_handler:
  "run_cleanup_handlers
      ((ServiceManager_init ([]::string list))
         \<lparr>cleanup_handlers := [(None, \<lambda>w. (None, w @ [''partial''])),
                               (Some ''cleanup_resources'', \<lambda>w. (None, w @ [''resources'']))]\<rparr>)
     = (Raised ''AttributeError'',
        (ServiceManager_init ([]::string list))
          \<lparr>cleanup_handlers := [(None, \<lambda>w. (None, w @ [''partial''])),
                                (Some ''cleanup_resources'', \<lambda>w. (None, w @ [''resources'']))],
           world := [''partial''],
           effects := [Invoke None],
           logged := [(INFO, ''Running 2 cleanup handlers...'')]\<rparr>)"
  by (simp add: run_cleanup_handlers_def clean_from.simps invoke_handler_def
      ServiceManager_init_def py_str_def)

text \<open>
  When every registered handler has a name, \<open>_run_cleanup_handlers\<close> does what claim C5
  says: it returns, having called every handler in registration order, each on the process
  state its predecessors left, whether they returned or raised, with one log line per
  handler.
\<close>

lemma run_cleanup_handlers_named:
  assumes "\<forall>h\<in>set (cleanup_handlers S). named h"
  shows "run_cleanup_handlers S =
           (Returned,
            S\<lparr>world := foldl (\<lambda>w h. snd (snd h w)) (world S) (cleanup_handlers S),
              effects := effects S @ map (\<lambda>h. Invoke (fst h)) (cleanup_handlers S),
              logged := logged S
                @ (INFO, ''Running '' @ py_str (int (length (cleanup_handlers S)))
                          @ '' cleanup handlers...'')
                # map (\<lambda>(h, outcome). handler_line (the (fst h)) outcome)
                    (zip (cleanup_handlers S)
                         (handler_outcomes (cleanup_handlers S) (world S)))\<rparr>)"
proof -
  let ?S' = "S\<lparr>logged := logged S @
            [(INFO, ''Running '' @ py_str (int (length (cleanup_handlers S)))
                      @ '' cleanup handlers...'')]\<rparr>"
  have "\<forall>h\<in>set (drop 0 (cleanup_handlers ?S')). named h" using assms by simp
  from clean_from_named[OF this] show ?thesis
    by (simp add: run_cleanup_handlers_def)
qed

lemma run_cleanup_handlers_first_nameless:
  assumes "cleanup_handlers S = (None, h) # hs"
  shows "run_cleanup_handlers S =
           (Raised ''AttributeError'',
            S\<lparr>world := snd (h (world S)), effects := effects S @ [Invoke None],
              logged := logged S
                @ [(INFO, ''Running '' @ py_str (int (length (cleanup_handlers S)))
                          @ '' cleanup handlers...'')]\<rparr>)"
  unfolding run_cleanup_handlers_def
  by (subst clean_from_nameless[where h = h]) (simp_all add: assms)

end
